theory Spec2Isabelle
  imports Complex_Main
begin

section \<open>Spectral hashing: bounds, mode table and encoding (sh.py)\<close>

text \<open>
  The arrays of \<^verbatim>\<open>sh.py\<close> are modelled as lists (a vector) and lists of rows (a
  matrix). Their float64 entries are real numbers here and the arithmetic of the model
  is exact, with one exception: the padding of the bounds by the machine epsilon, whose
  effect depends on the rounding of float64, is modelled with the rounding written out.
  The calls of numpy that raise are modelled with a result of type \<open>error + 'a\<close>.
  The projection itself (\<^verbatim>\<open>PCA\<close> of scikit-learn) is not part of \<^verbatim>\<open>sh.py\<close>; the model
  starts from the projected matrix \<open>X\<close>, which has \<open>code_length\<close> columns.
\<close>

subsection \<open>Errors and the numpy primitives used\<close>

text \<open>
  \<open>ValueError\<close> and \<open>IndexError\<close> are the exceptions numpy raises (a reduction of an
  empty array, a negative dimension, a shape that cannot be broadcast; an index out of
  range). \<open>NonFinite\<close> is not an exception: it marks a division by zero, where numpy
  goes on with \<^verbatim>\<open>inf\<close> or \<^verbatim>\<open>nan\<close> and this model stops.
\<close>

datatype error = ValueError | IndexError | NonFinite

text \<open>\<^verbatim>\<open>R.max()\<close>: numpy raises ValueError on an empty array.\<close>

definition amax :: "real list \<Rightarrow> error + real" where
  "amax xs = (if xs = [] then Inl ValueError else Inr (Max (set xs)))"

text \<open>\<^verbatim>\<open>np.arange(a, b)\<close> on integers: \<open>a, a + 1, ..., b - 1\<close>.\<close>

definition arange :: "int \<Rightarrow> int \<Rightarrow> int list" where
  "arange a b = [a..b - 1]"

text \<open>
  A bound of a Python slice over \<open>n\<close> elements: a negative bound counts from the
  end, and the result is clipped to \<open>0..n\<close>.
\<close>

definition slice_index :: "nat \<Rightarrow> int \<Rightarrow> nat" where
  "slice_index n k = (if k < 0 then nat (max 0 (k + int n)) else min (nat k) n)"

text \<open>
  \<^verbatim>\<open>modes[a:b, i] = vals\<close>: the rows \<open>a..b-1\<close> of column \<open>i\<close> are overwritten. The
  values must be as many as the rows of the slice, or one value that is broadcast;
  otherwise numpy raises ValueError.
\<close>

definition assign_col ::
  "real list list \<Rightarrow> int \<Rightarrow> int \<Rightarrow> nat \<Rightarrow> real list \<Rightarrow> error + real list list" where
  "assign_col modes a b i vals =
     (let s = slice_index (length modes) a;
          e = slice_index (length modes) b;
          tgt = take (e - s) (drop s modes)
      in if length vals = length tgt
         then Inr (take s modes @ map2 (\<lambda>row v. row[i := v]) tgt vals
                   @ drop (s + length tgt) modes)
         else if length vals = 1
         then Inr (take s modes @ map (\<lambda>row. row[i := hd vals]) tgt
                   @ drop (s + length tgt) modes)
         else Inl ValueError)"

subsection \<open>The bounds of the projected training data (train, lines 39 to 44)\<close>

text \<open>\<^verbatim>\<open>eps = np.finfo(float).eps\<close>, the gap between 1 and the next float64.\<close>

definition eps :: real where
  "eps = 1 / 2 ^ 52"

text \<open>
  The rounding of float64 (53 significant bits, round to nearest, ties to even), for a
  result in the normal range: a real \<open>x\<close> with \<open>2^e \<le> |x| < 2^(e+1)\<close> is rounded to a
  multiple of \<open>2^(e-52)\<close>.
\<close>

definition round_even :: "real \<Rightarrow> int" where
  "round_even x =
     (let f = \<lfloor>x\<rfloor>; r = x - of_int f
      in if r < 1 / 2 then f else if 1 / 2 < r then f + 1 else if even f then f else f + 1)"

definition fl64 :: "real \<Rightarrow> real" where
  "fl64 x =
     (if x = 0 then 0
      else let e = \<lfloor>log 2 \<bar>x\<bar>\<rfloor>
           in of_int (round_even (x * 2 powr of_int (52 - e))) * 2 powr of_int (e - 52))"

text \<open>
  \<^verbatim>\<open>
  mn = X.min(0) - eps
  mx = X.max(0) + eps
  R = mx - mn
  \<close>
  in float64 arithmetic, for a matrix \<open>X\<close> of float64 values with \<open>code_length\<close> columns.
  The reduction along axis 0 raises ValueError when \<open>X\<close> has no row.
\<close>

definition columns :: "nat \<Rightarrow> real list list \<Rightarrow> real list list" where
  "columns n X = map (\<lambda>j. map (\<lambda>row. row ! j) X) [0..<n]"

definition fit_bounds ::
  "nat \<Rightarrow> real list list \<Rightarrow> error + real list \<times> real list \<times> real list" where
  "fit_bounds code_length X =
     (if X = [] then Inl ValueError
      else
        let mn = map (\<lambda>c. fl64 (Min (set c) - eps)) (columns code_length X);
            mx = map (\<lambda>c. fl64 (Max (set c) + eps)) (columns code_length X);
            R = map2 (\<lambda>a b. fl64 (a - b)) mx mn
        in Inr (mn, mx, R))"

subsection \<open>Enumeration of the eigenfunctions (train, lines 44 to 53)\<close>

text \<open>
  \<^verbatim>\<open>max_mode = np.ceil((code_length + 1) * R / R.max()).astype(np.int)\<close>
\<close>

definition max_mode_of :: "nat \<Rightarrow> real list \<Rightarrow> error + int list" where
  "max_mode_of code_length R =
     (case amax R of
        Inl err \<Rightarrow> Inl err
      | Inr Rmax \<Rightarrow>
          if Rmax = 0 then Inl NonFinite
          else Inr (map (\<lambda>r. \<lceil>(real code_length + 1) * r / Rmax\<rceil>) R))"

text \<open>\<^verbatim>\<open>n_modes = max_mode.sum() - len(max_mode) + 1\<close>\<close>

definition n_modes_of :: "int list \<Rightarrow> int" where
  "n_modes_of max_mode = sum_list max_mode - int (length max_mode) + 1"

text \<open>
  The loop over the dimensions, with the running row offset \<open>m\<close> and the matrix
  \<open>modes\<close> as its state:
  \<^verbatim>\<open>
  for i in range(code_length):
      modes[m + 1: m + max_mode[i], i] = np.arange(1, max_mode[i]) + 1
      m = m + max_mode[i] - 1
  \<close>
\<close>

fun enum_loop ::
  "int list \<Rightarrow> nat list \<Rightarrow> int \<Rightarrow> real list list \<Rightarrow> error + real list list" where
  "enum_loop max_mode [] m modes = Inr modes"
| "enum_loop max_mode (i # is) m modes =
     (if length max_mode \<le> i then Inl IndexError
      else (case assign_col modes (m + 1) (m + max_mode ! i) i
                   (map (\<lambda>k. real_of_int (k + 1)) (arange 1 (max_mode ! i))) of
              Inl err \<Rightarrow> Inl err
            | Inr modes' \<Rightarrow> enum_loop max_mode is (m + max_mode ! i - 1) modes'))"

text \<open>
  Lines 45 to 53: \<^verbatim>\<open>np.ones([n_modes, code_length])\<close> raises ValueError on a negative
  dimension; after the loop, \<^verbatim>\<open>modes -= 1\<close>.
\<close>

definition enumerate_modes :: "nat \<Rightarrow> real list \<Rightarrow> error + real list list" where
  "enumerate_modes code_length R =
     (case max_mode_of code_length R of
        Inl err \<Rightarrow> Inl err
      | Inr max_mode \<Rightarrow>
          let n_modes = n_modes_of max_mode in
          if n_modes < 0 then Inl ValueError
          else (case enum_loop max_mode [0..<code_length] 0
                       (replicate (nat n_modes) (replicate code_length 1)) of
                  Inl err \<Rightarrow> Inl err
                | Inr modes \<Rightarrow> Inr (map (map (\<lambda>x. x - 1)) modes)))"

subsection \<open>Eigenvalues, sorting and selection (train, lines 54 to 58)\<close>

text \<open>\<^verbatim>\<open>omega0 = np.pi / R\<close>\<close>

definition omega0_of :: "real list \<Rightarrow> error + real list" where
  "omega0_of R = (if 0 \<in> set R then Inl NonFinite else Inr (map (\<lambda>r. pi / r) R))"

text \<open>
  \<^verbatim>\<open>omegas = modes * omega0.reshape(1, -1).repeat(n_modes, 0)\<close> and
  \<^verbatim>\<open>eig_val = -(omegas ** 2).sum(1)\<close>
\<close>

definition omegas_of :: "real list list \<Rightarrow> real list \<Rightarrow> real list list" where
  "omegas_of modes omega0 = map (\<lambda>row. map2 (*) row omega0) modes"

definition eig_val_of :: "real list list \<Rightarrow> real list" where
  "eig_val_of omegas = map (\<lambda>row. - sum_list (map (\<lambda>w. w ^ 2) row)) omegas"

text \<open>
  \<^verbatim>\<open>ii = (-eig_val).argsort()\<close>: numpy's default sort is not stable, so which of two
  equal keys comes first is not fixed. \<open>is_argsort keys ii\<close> says that \<open>ii\<close> is a
  result the call may return: a permutation of the indices of \<open>keys\<close> that lists the
  keys in ascending order.
\<close>

definition is_argsort :: "real list \<Rightarrow> nat list \<Rightarrow> bool" where
  "is_argsort keys ii \<longleftrightarrow>
     length ii = length keys \<and> distinct ii \<and> (\<forall>i \<in> set ii. i < length keys) \<and>
     sorted (map (\<lambda>i. keys ! i) ii)"

text \<open>\<^verbatim>\<open>modes[ii[1: code_length + 1], :]\<close>\<close>

definition select_modes :: "nat \<Rightarrow> real list list \<Rightarrow> nat list \<Rightarrow> error + real list list" where
  "select_modes code_length modes ii =
     (let sel = take code_length (drop 1 ii)
      in if \<forall>i \<in> set sel. i < length modes then Inr (map (\<lambda>i. modes ! i) sel)
         else Inl IndexError)"

text \<open>Lines 45 to 56: the eigenvalue estimate of every candidate row.\<close>

definition eig_vals :: "nat \<Rightarrow> real list \<Rightarrow> error + real list" where
  "eig_vals code_length R =
     (case enumerate_modes code_length R of
        Inl err \<Rightarrow> Inl err
      | Inr modes \<Rightarrow>
          (case omega0_of R of
             Inl err \<Rightarrow> Inl err
           | Inr omega0 \<Rightarrow> Inr (eig_val_of (omegas_of modes omega0))))"

text \<open>
  Lines 45 to 58 as a whole, for a result \<open>ii\<close> of the call
  \<^verbatim>\<open>(-eig_val).argsort()\<close>: the mode table handed to \<^verbatim>\<open>generate_code\<close>.
\<close>

definition mode_table :: "nat \<Rightarrow> real list \<Rightarrow> nat list \<Rightarrow> error + real list list" where
  "mode_table code_length R ii =
     (case enumerate_modes code_length R of
        Inl err \<Rightarrow> Inl err
      | Inr modes \<Rightarrow>
          (case omega0_of R of
             Inl err \<Rightarrow> Inl err
           | Inr omega0 \<Rightarrow> select_modes code_length modes ii))"

subsection \<open>The description of the candidates in the specification\<close>

text \<open>
  The specification's words: \<open>maxMode[i] = ceil((L+1) * range[i] / max(range))\<close>; the
  candidates are the all-zero row and, for each dimension \<open>i\<close>, the rows whose only
  non-zero entry is a mode index \<open>1, ..., maxMode[i] - 1\<close> at position \<open>i\<close>.
\<close>

definition max_mode_spec :: "nat \<Rightarrow> real list \<Rightarrow> nat \<Rightarrow> int" where
  "max_mode_spec L R i = \<lceil>(real L + 1) * (R ! i) / Max (set R)\<rceil>"

definition single_mode :: "nat \<Rightarrow> nat \<Rightarrow> int \<Rightarrow> real list" where
  "single_mode L i k = (replicate L 0)[i := real_of_int k]"

definition candidate_rows :: "nat \<Rightarrow> real list \<Rightarrow> real list list" where
  "candidate_rows L R =
     replicate L 0 #
     concat (map (\<lambda>i. map (single_mode L i) [1..max_mode_spec L R i - 1]) [0..<L])"

subsection \<open>Encoding (generate_code)\<close>

text \<open>
  The loop of \<^verbatim>\<open>generate_code\<close> over the bits, with the matrix \<open>U\<close> as its state:
  \<^verbatim>\<open>
  for i in range(code_length):
      omegai = omegas[i, :]
      ys = np.sin(data * omegai + np.pi / 2)
      yi = np.prod(ys, 1)
      U[:, i] = yi
  \<close>
  \<^verbatim>\<open>omegas[i, :]\<close> raises IndexError when the mode table has no row \<open>i\<close>.
\<close>

fun code_loop ::
  "real list list \<Rightarrow> real list list \<Rightarrow> nat list \<Rightarrow> real list list \<Rightarrow> error + real list list" where
  "code_loop data omegas [] U = Inr U"
| "code_loop data omegas (i # is) U =
     (if length omegas \<le> i then Inl IndexError
      else
        let omegai = omegas ! i;
            ys = map (\<lambda>row. map (\<lambda>x. sin (x + pi / 2)) (map2 (*) row omegai)) data;
            yi = map prod_list ys
        in code_loop data omegas is (map2 (\<lambda>urow y. urow[i := y]) U yi))"

text \<open>
  \<^verbatim>\<open>generate_code(data, code_length, pca, mn, R, modes)\<close>, where \<open>X\<close> stands for
  \<^verbatim>\<open>pca.transform(data.numpy())\<close>, the projected matrix with one row per data point
  and \<open>code_length\<close> columns (the projection itself is scikit-learn's). The result is
  \<^verbatim>\<open>np.sign(U)\<close>; numpy's sign of zero is zero, as \<open>sgn\<close> on the reals. The first
  step after the shift is \<^verbatim>\<open>omega0 = np.pi / R\<close>, as in \<^verbatim>\<open>train\<close>.
\<close>

definition generate_code ::
  "nat \<Rightarrow> real list \<Rightarrow> real list \<Rightarrow> real list list \<Rightarrow> real list list
     \<Rightarrow> error + real list list" where
  "generate_code code_length mn R modes X =
     (let data = map (\<lambda>row. map2 (-) row mn) X
      in case omega0_of R of
           Inl err \<Rightarrow> Inl err
         | Inr omega0 \<Rightarrow>
             let omegas = omegas_of modes omega0;
                 U = replicate (length data) (replicate code_length 0)
             in (case code_loop data omegas [0..<code_length] U of
                   Inl err \<Rightarrow> Inl err
                 | Inr U' \<Rightarrow> Inr (map (map sgn) U')))"

subsection \<open>Auxiliary notions of the proofs\<close>

text \<open>
  The value the loop of \<^verbatim>\<open>generate_code\<close> computes for bit \<open>i\<close> of one shifted row
  (\<^verbatim>\<open>yi\<close> at that row), and the code of one projected row \<open>v\<close>.
\<close>

definition bit_value :: "real list list \<Rightarrow> real list \<Rightarrow> nat \<Rightarrow> real" where
  "bit_value omegas drow i =
     prod_list (map (\<lambda>x. sin (x + pi / 2)) (map2 (*) drow (omegas ! i)))"

definition code_row ::
  "nat \<Rightarrow> real list \<Rightarrow> real list \<Rightarrow> real list list \<Rightarrow> real list \<Rightarrow> real list" where
  "code_row L mn R modes v =
     map (\<lambda>k. sgn (bit_value (omegas_of modes (map (\<lambda>r. pi / r) R)) (map2 (-) v mn) k))
       [0..<L]"

text \<open>
  The bounds the enumeration is meant for: a positive code length and one strictly
  positive range per dimension.
\<close>

definition valid_bounds :: "nat \<Rightarrow> real list \<Rightarrow> bool" where
  "valid_bounds L R \<longleftrightarrow> 0 < L \<and> length R = L \<and> (\<forall>r \<in> set R. 0 < r)"

text \<open>The rows the loop writes for dimension \<open>i\<close>, before \<^verbatim>\<open>modes -= 1\<close>.\<close>

definition ones_block :: "nat \<Rightarrow> int list \<Rightarrow> nat \<Rightarrow> real list list" where
  "ones_block L mm i =
     map (\<lambda>k. (replicate L 1)[i := real_of_int (k + 1)]) (arange 1 (mm ! i))"


section \<open>The enumeration loop\<close>

lemma assign_col_block:
  assumes "length vals = k" and "k \<le> c"
  shows "assign_col (pre @ replicate c row) (int (length pre)) (int (length pre) + int k) i vals
         = Inr (pre @ map (\<lambda>v. row[i := v]) vals @ replicate (c - k) row)"
proof -
  have s: "slice_index (length pre + c) (int (length pre)) = length pre"
    by (simp add: slice_index_def)
  have e: "slice_index (length pre + c) (int (length pre) + int k) = length pre + k"
    using assms by (simp add: slice_index_def nat_add_distrib)
  have "map2 (\<lambda>r v. r[i := v]) (replicate (length vals) row) vals = map (\<lambda>v. row[i := v]) vals"
    by (induction vals) simp_all
  then have z: "map2 (\<lambda>r v. r[i := v]) (replicate k row) vals = map (\<lambda>v. row[i := v]) vals"
    using assms(1) by simp
  show ?thesis
    using assms by (simp add: assign_col_def s e Let_def z min_def)
qed

lemma length_arange: "length (arange 1 k) = nat (k - 1)"
  by (simp add: arange_def)

lemma enum_loop_blocks:
  assumes "\<forall>d \<in> set ds. d < length mm \<and> 1 \<le> mm ! d"
    and "(\<Sum>d\<leftarrow>ds. nat (mm ! d - 1)) \<le> c"
    and "pre \<noteq> []"
  shows "enum_loop mm ds (int (length pre) - 1) (pre @ replicate c (replicate L 1))
         = Inr (pre @ concat (map (ones_block L mm) ds)
                 @ replicate (c - (\<Sum>d\<leftarrow>ds. nat (mm ! d - 1))) (replicate L 1))"
  using assms
proof (induction ds arbitrary: pre c)
  case Nil
  then show ?case by simp
next
  case (Cons d ds)
  let ?k = "nat (mm ! d - 1)"
  let ?vals = "map (\<lambda>k. real_of_int (k + 1)) (arange 1 (mm ! d))"
  from Cons.prems have d: "d < length mm" "1 \<le> mm ! d" by auto
  from Cons.prems have kc: "?k \<le> c" by simp
  have b: "int (length pre) - 1 + mm ! d = int (length pre) + int ?k"
    using d by simp
  have blk: "map (\<lambda>v. (replicate L 1)[d := v]) ?vals = ones_block L mm d"
    by (simp add: ones_block_def comp_def)
  have a: "int (length pre) - 1 + 1 = int (length pre)" by simp
  have "assign_col (pre @ replicate c (replicate L 1)) (int (length pre))
                (int (length pre) + int ?k) d ?vals
              = Inr (pre @ map (\<lambda>v. (replicate L 1)[d := v]) ?vals @ replicate (c - ?k) (replicate L 1))"
    by (rule assign_col_block) (simp_all add: length_arange kc)
  then have step: "assign_col (pre @ replicate c (replicate L 1)) (int (length pre) - 1 + 1)
                (int (length pre) - 1 + mm ! d) d ?vals
              = Inr ((pre @ ones_block L mm d) @ replicate (c - ?k) (replicate L 1))"
    by (simp only: a b blk append_assoc)
  have m': "int (length pre) - 1 + mm ! d - 1 = int (length (pre @ ones_block L mm d)) - 1"
    using d by (simp add: ones_block_def length_arange)
  have IH: "enum_loop mm ds (int (length (pre @ ones_block L mm d)) - 1)
              ((pre @ ones_block L mm d) @ replicate (c - ?k) (replicate L 1))
            = Inr ((pre @ ones_block L mm d) @ concat (map (ones_block L mm) ds)
                 @ replicate (c - ?k - (\<Sum>d\<leftarrow>ds. nat (mm ! d - 1))) (replicate L 1))"
    using Cons.prems by (intro Cons.IH) auto
  show ?case
    using d step IH by (simp add: m' diff_diff_eq)
qed

lemma sum_list_pred:
  "\<forall>x \<in> set xs. 1 \<le> x \<Longrightarrow> int (\<Sum>x\<leftarrow>xs. nat (x - 1)) = sum_list xs - int (length xs)"
  by (induction xs) auto

lemma valid_Max:
  assumes "valid_bounds L R"
  shows "R \<noteq> []" and "0 < Max (set R)" and "Max (set R) \<in> set R"
proof -
  show ne: "R \<noteq> []" using assms by (auto simp: valid_bounds_def)
  then show m: "Max (set R) \<in> set R" using Max_in[of "set R"] by simp
  then show "0 < Max (set R)" using assms by (auto simp: valid_bounds_def)
qed

lemma max_mode_of_valid:
  assumes "valid_bounds L R"
  shows "max_mode_of L R = Inr (map (max_mode_spec L R) [0..<L])"
proof -
  have len: "length R = L" using assms by (simp add: valid_bounds_def)
  have "map (\<lambda>r. \<lceil>(real L + 1) * r / Max (set R)\<rceil>) R = map (max_mode_spec L R) [0..<L]"
    using len by (intro nth_equalityI) (simp_all add: max_mode_spec_def)
  then show ?thesis
    using valid_Max[OF assms] by (simp add: max_mode_of_def amax_def)
qed

lemma max_mode_spec_ge1:
  assumes "valid_bounds L R" and "i < L"
  shows "1 \<le> max_mode_spec L R i"
proof -
  have "0 < R ! i" using assms by (auto simp: valid_bounds_def)
  then have "0 < (real L + 1) * (R ! i) / Max (set R)"
    using valid_Max(2)[OF assms(1)] by simp
  then show ?thesis
    unfolding max_mode_spec_def by linarith
qed

lemma max_mode_spec_widest:
  assumes "valid_bounds L R"
  shows "\<exists>j < L. max_mode_spec L R j = int L + 1"
proof -
  from valid_Max[OF assms] obtain j where j: "j < length R" "R ! j = Max (set R)"
    by (auto simp: in_set_conv_nth)
  have "(real L + 1) * (R ! j) / Max (set R) = real_of_int (int L + 1)"
    using j valid_Max(2)[OF assms] by simp
  then have "max_mode_spec L R j = int L + 1"
    unfolding max_mode_spec_def by (simp only: ceiling_of_int)
  then show ?thesis using j assms by (auto simp: valid_bounds_def)
qed

lemma map_minus_one_block:
  "i < L \<Longrightarrow> map (map (\<lambda>x. x - 1)) (ones_block L mm i) = map (single_mode L i) (arange 1 (mm ! i))"
  by (simp add: ones_block_def single_mode_def map_update comp_def)

lemma enumerate_modes_valid:
  assumes "valid_bounds L R"
  shows "enumerate_modes L R = Inr (candidate_rows L R)"
proof -
  let ?mm = "map (max_mode_spec L R) [0..<L]"
  let ?tot = "\<Sum>d\<leftarrow>[0..<L]. nat (?mm ! d - 1)"
  have ge1: "\<forall>x \<in> set ?mm. 1 \<le> x"
    using max_mode_spec_ge1[OF assms] by auto
  have eq: "map (\<lambda>d. nat (?mm ! d - 1)) [0..<L] = map (\<lambda>d. nat (max_mode_spec L R d - 1)) [0..<L]"
    by (rule map_cong) simp_all
  have "(\<Sum>x\<leftarrow>?mm. nat (x - 1)) = (\<Sum>d\<leftarrow>[0..<L]. nat (max_mode_spec L R d - 1))"
    by (simp add: comp_def)
  then have "(\<Sum>x\<leftarrow>?mm. nat (x - 1)) = ?tot"
    by (simp only: eq)
  then have tot: "int ?tot = sum_list ?mm - int L"
    using sum_list_pred[OF ge1] by simp
  then have n: "nat (n_modes_of ?mm) = Suc ?tot" and n0: "\<not> n_modes_of ?mm < 0"
    by (simp_all add: n_modes_of_def)
  have "enum_loop ?mm [0..<L] (int (length [replicate L (1::real)]) - 1)
          ([replicate L 1] @ replicate ?tot (replicate L 1))
        = Inr ([replicate L 1] @ concat (map (ones_block L ?mm) [0..<L])
               @ replicate (?tot - ?tot) (replicate L 1))"
    using ge1 by (intro enum_loop_blocks) auto
  then have loop: "enum_loop ?mm [0..<L] 0 (replicate (Suc ?tot) (replicate L 1))
        = Inr (replicate L 1 # concat (map (ones_block L ?mm) [0..<L]))"
    by simp
  have eq2: "map (\<lambda>i. map (map (\<lambda>x. x - 1)) (ones_block L ?mm i)) [0..<L]
        = map (\<lambda>i. map (single_mode L i) [1..max_mode_spec L R i - 1]) [0..<L]"
    by (rule map_cong) (simp_all add: map_minus_one_block arange_def)
  have "map (map (\<lambda>x. x - 1)) (concat (map (ones_block L ?mm) [0..<L]))
        = concat (map (\<lambda>i. map (map (\<lambda>x. x - 1)) (ones_block L ?mm i)) [0..<L])"
    by (simp add: map_concat comp_def)
  then have blocks: "map (map (\<lambda>x. x - 1)) (concat (map (ones_block L ?mm) [0..<L]))
        = concat (map (\<lambda>i. map (single_mode L i) [1..max_mode_spec L R i - 1]) [0..<L])"
    by (simp only: eq2)
  show ?thesis
    unfolding enumerate_modes_def max_mode_of_valid[OF assms]
    by (simp add: n n0 loop blocks candidate_rows_def Let_def del: replicate_Suc)
qed

section \<open>Candidates, eigenvalues and the sort\<close>

lemma candidate_row_length:
  "row \<in> set (candidate_rows L R) \<Longrightarrow> length row = L"
  by (auto simp: candidate_rows_def single_mode_def)

lemma tl_candidate_rows:
  "row \<in> set (tl (candidate_rows L R)) \<longleftrightarrow>
     (\<exists>i k. i < L \<and> 1 \<le> k \<and> k < max_mode_spec L R i \<and> row = single_mode L i k)"
  unfolding candidate_rows_def by (simp, safe) (force+)

lemma length_candidate_rows:
  assumes "valid_bounds L R"
  shows "int (length (candidate_rows L R)) = (\<Sum>i<L. max_mode_spec L R i) - int L + 1"
proof -
  let ?mm = "map (max_mode_spec L R) [0..<L]"
  have ge1: "\<forall>x \<in> set ?mm. 1 \<le> x"
    using max_mode_spec_ge1[OF assms] by auto
  have "length (candidate_rows L R) = Suc (\<Sum>x\<leftarrow>?mm. nat (x - 1))"
    by (simp add: candidate_rows_def length_concat comp_def)
  moreover have "sum_list ?mm = (\<Sum>i<L. max_mode_spec L R i)"
    by (simp add: interv_sum_list_conv_sum_set_nat atLeast0LessThan)
  ultimately show ?thesis
    using sum_list_pred[OF ge1] by simp
qed

lemma sum_list_squares:
  assumes "length row = length R"
  shows "sum_list (map (\<lambda>w. w ^ 2) (map2 (*) row (map (\<lambda>r. pi / r) R)))
         = (\<Sum>i<length R. (row ! i * pi / R ! i) ^ 2)"
proof -
  let ?xs = "map (\<lambda>w. w ^ 2) (map2 (*) row (map (\<lambda>r. pi / r) R))"
  have "sum_list ?xs = (\<Sum>i = 0..<length ?xs. ?xs ! i)"
    by (rule sum_list_sum_nth)
  also have "\<dots> = (\<Sum>i<length R. (row ! i * pi / R ! i) ^ 2)"
    using assms by (intro sum.cong) (auto simp: atLeast0LessThan)
  finally show ?thesis .
qed

lemma eig_vals_valid:
  assumes "valid_bounds L R"
  shows "eig_vals L R =
           Inr (map (\<lambda>row. - (\<Sum>i<L. (row ! i * pi / R ! i) ^ 2)) (candidate_rows L R))"
proof -
  have len: "length R = L" and nz: "0 \<notin> set R"
    using assms by (auto simp: valid_bounds_def)
  have "\<And>row. row \<in> set (candidate_rows L R) \<Longrightarrow>
          sum_list (map (\<lambda>w. w ^ 2) (map2 (*) row (map (\<lambda>r. pi / r) R)))
          = (\<Sum>i<L. (row ! i * pi / R ! i) ^ 2)"
    using sum_list_squares[of _ R] by (simp add: candidate_row_length len)
  then have "eig_val_of (omegas_of (candidate_rows L R) (map (\<lambda>r. pi / r) R))
        = map (\<lambda>row. - (\<Sum>i<L. (row ! i * pi / R ! i) ^ 2)) (candidate_rows L R)"
    by (simp add: eig_val_of_def omegas_of_def comp_def)
  then show ?thesis
    by (simp add: eig_vals_def enumerate_modes_valid[OF assms] omega0_of_def nz)
qed

lemma single_mode_nth:
  "j < L \<Longrightarrow> single_mode L i k ! j = (if j = i then real_of_int k else 0)"
  by (simp add: single_mode_def nth_list_update)

lemma single_mode_energy:
  assumes "i < L"
  shows "(\<Sum>j<L. (single_mode L i k ! j * pi / R ! j) ^ 2) = (real_of_int k * pi / R ! i) ^ 2"
proof -
  have "(\<Sum>j<L. (single_mode L i k ! j * pi / R ! j) ^ 2)
        = (\<Sum>j<L. if j = i then (real_of_int k * pi / R ! i) ^ 2 else 0)"
    by (rule sum.cong) (simp_all add: single_mode_nth)
  also have "\<dots> = (real_of_int k * pi / R ! i) ^ 2"
    using assms by simp
  finally show ?thesis .
qed

lemma single_mode_energy_pos:
  assumes "valid_bounds L R" and "i < L" and "1 \<le> k"
  shows "0 < (\<Sum>j<L. (single_mode L i k ! j * pi / R ! j) ^ 2)"
proof -
  have "0 < R ! i" using assms by (auto simp: valid_bounds_def)
  then have "real_of_int k * pi / R ! i \<noteq> 0" using assms(3) by simp
  then show ?thesis
    unfolding single_mode_energy[OF assms(2)] by (rule zero_less_power2[THEN iffD2])
qed

lemma argsort_set:
  assumes "is_argsort keys ii"
  shows "set ii = {..<length keys}"
proof -
  have "set ii \<subseteq> {..<length keys}" using assms by (auto simp: is_argsort_def)
  moreover have "card (set ii) = card {..<length keys}"
    using assms by (simp add: is_argsort_def distinct_card)
  ultimately show ?thesis by (simp add: card_subset_eq)
qed

lemma argsort_first:
  assumes "is_argsort keys ii" and "0 < length keys"
    and "\<forall>j < length keys. 0 < j \<longrightarrow> keys ! 0 < keys ! j"
  shows "ii ! 0 = 0"
proof (rule ccontr)
  assume ne: "ii ! 0 \<noteq> 0"
  have len: "length ii = length keys" using assms(1) by (simp add: is_argsort_def)
  have "0 \<in> set ii" using argsort_set[OF assms(1)] assms(2) by simp
  then obtain p where p: "p < length ii" "ii ! p = 0" by (auto simp: in_set_conv_nth)
  have "ii ! 0 \<in> set ii" using len assms(2) by simp
  then have lt: "ii ! 0 < length keys" using assms(1) by (simp add: is_argsort_def)
  have "sorted (map (\<lambda>i. keys ! i) ii)" using assms(1) by (simp add: is_argsort_def)
  then have "map (\<lambda>i. keys ! i) ii ! 0 \<le> map (\<lambda>i. keys ! i) ii ! p"
    using p by (intro sorted_nth_mono) simp_all
  then have "keys ! (ii ! 0) \<le> keys ! 0" using p len assms(2) by simp
  moreover have "keys ! 0 < keys ! (ii ! 0)" using assms(3) lt ne by simp
  ultimately show False by simp
qed

lemma valid_boundsI: "0 < L \<Longrightarrow> length R = L \<Longrightarrow> \<forall>r \<in> set R. 0 < r \<Longrightarrow> valid_bounds L R"
  by (simp add: valid_bounds_def)

lemma sum_max_mode_ge:
  assumes "valid_bounds L R"
  shows "2 * int L \<le> (\<Sum>i<L. max_mode_spec L R i)"
proof -
  from max_mode_spec_widest[OF assms] obtain j where j: "j < L" "max_mode_spec L R j = int L + 1"
    by blast
  have "(\<Sum>i<L. max_mode_spec L R i)
        = max_mode_spec L R j + (\<Sum>i\<in>{..<L} - {j}. max_mode_spec L R i)"
    using j by (intro sum.remove) simp_all
  moreover have "of_nat (card ({..<L} - {j})) * 1 \<le> (\<Sum>i\<in>{..<L} - {j}. max_mode_spec L R i)"
    using max_mode_spec_ge1[OF assms] by (intro sum_bounded_below) simp
  moreover have "card ({..<L} - {j}) = L - 1" using j by simp
  ultimately show ?thesis using j by simp
qed

lemma candidate_rows_nth_pos:
  assumes "0 < j" and "j < length (candidate_rows L R)"
  shows "\<exists>i k. i < L \<and> 1 \<le> k \<and> k < max_mode_spec L R i \<and> candidate_rows L R ! j = single_mode L i k"
proof -
  have "candidate_rows L R ! j = tl (candidate_rows L R) ! (j - 1)"
    using assms by (simp add: candidate_rows_def nth_Cons')
  moreover have "j - 1 < length (tl (candidate_rows L R))" using assms by simp
  ultimately have "candidate_rows L R ! j \<in> set (tl (candidate_rows L R))"
    using nth_mem by metis
  then show ?thesis by (simp only: tl_candidate_rows)
qed

lemma eig_zero_first:
  assumes "valid_bounds L R" and "eig_vals L R = Inr eig_val"
  shows "length eig_val = length (candidate_rows L R)" and "eig_val ! 0 = 0"
    and "\<forall>j < length eig_val. 0 < j \<longrightarrow> eig_val ! j < 0"
proof -
  have k: "eig_val = map (\<lambda>row. - (\<Sum>i<L. (row ! i * pi / R ! i) ^ 2)) (candidate_rows L R)"
    using assms eig_vals_valid by simp
  show "length eig_val = length (candidate_rows L R)" by (simp add: k)
  show "eig_val ! 0 = 0" by (simp add: k candidate_rows_def)
  show "\<forall>j < length eig_val. 0 < j \<longrightarrow> eig_val ! j < 0"
  proof (intro allI impI)
    fix j assume j: "j < length eig_val" "0 < j"
    then obtain i m where "i < L" "1 \<le> m" "candidate_rows L R ! j = single_mode L i m"
      using candidate_rows_nth_pos[of j L R] by (auto simp: k)
    then show "eig_val ! j < 0"
      using j single_mode_energy_pos[OF assms(1), of i m] by (simp add: k)
  qed
qed

lemma argsort_select:
  assumes "is_argsort keys ii" and "length modes = length keys"
  shows "select_modes L modes ii = Inr (map (\<lambda>i. modes ! i) (take L (drop 1 ii)))"
proof -
  have "\<forall>i \<in> set (take L (drop 1 ii)). i < length modes"
    using assms by (auto simp: is_argsort_def dest!: in_set_takeD in_set_dropD)
  then show ?thesis by (simp add: select_modes_def)
qed

section \<open>The claims about the mode table\<close>



text \<open>
  Claim C4. For a code length \<open>L \<ge> 1\<close> and \<open>L\<close> strictly positive ranges, the
  enumeration yields at least \<open>L\<close> non-constant candidate rows:
  \<open>sum(maxMode) - L \<ge> L\<close>, that is at least \<open>L + 1\<close> candidates, the all-zero row
  first, so \<open>L\<close> rows can always be selected after the constant one is dropped.
\<close>

theorem enough_candidates:
  assumes "0 < L" and "length R = L" and "\<forall>r \<in> set R. 0 < r"
  shows "\<exists>max_mode modes.
           max_mode_of L R = Inr max_mode \<and>
           int L \<le> sum_list max_mode - int L \<and>
           int L + 1 \<le> n_modes_of max_mode \<and>
           enumerate_modes L R = Inr modes \<and>
           int (length modes) = n_modes_of max_mode \<and>
           hd modes = replicate L 0 \<and>
           L \<le> length (tl modes) \<and>
           (\<forall>row \<in> set (tl modes). row \<noteq> replicate L 0)"
proof -
  have v: "valid_bounds L R" using assms by (rule valid_boundsI)
  let ?mm = "map (max_mode_spec L R) [0..<L]"
  have s: "sum_list ?mm = (\<Sum>i<L. max_mode_spec L R i)"
    by (simp add: interv_sum_list_conv_sum_set_nat atLeast0LessThan)
  have n: "n_modes_of ?mm = (\<Sum>i<L. max_mode_spec L R i) - int L + 1"
    by (simp add: n_modes_of_def s)
  have len: "int (length (candidate_rows L R)) = n_modes_of ?mm"
    using length_candidate_rows[OF v] n by simp
  have ge: "2 * int L \<le> (\<Sum>i<L. max_mode_spec L R i)"
    by (rule sum_max_mode_ge[OF v])
  have nz: "\<forall>row \<in> set (tl (candidate_rows L R)). row \<noteq> replicate L 0"
  proof
    fix row assume "row \<in> set (tl (candidate_rows L R))"
    then obtain i k where ik: "i < L" "1 \<le> k" "row = single_mode L i k"
      by (auto simp only: tl_candidate_rows)
    then have "row ! i \<noteq> replicate L 0 ! i" by (simp add: single_mode_nth)
    then show "row \<noteq> replicate L 0" by metis
  qed
  have tl: "L \<le> length (tl (candidate_rows L R))"
    using len n ge by simp
  have "max_mode_of L R = Inr ?mm \<and>
           int L \<le> sum_list ?mm - int L \<and>
           int L + 1 \<le> n_modes_of ?mm \<and>
           enumerate_modes L R = Inr (candidate_rows L R) \<and>
           int (length (candidate_rows L R)) = n_modes_of ?mm \<and>
           hd (candidate_rows L R) = replicate L 0 \<and>
           L \<le> length (tl (candidate_rows L R)) \<and>
           (\<forall>row \<in> set (tl (candidate_rows L R)). row \<noteq> replicate L 0)"
    using max_mode_of_valid[OF v] enumerate_modes_valid[OF v] len nz tl ge
    by (simp add: s n) (simp add: candidate_rows_def)
  then show ?thesis by blast
qed

theorem enough_candidates_witness:
  "\<exists>max_mode modes.
     max_mode_of 3 [1, 1/2, 1/3] = Inr max_mode \<and>
     (3::int) \<le> sum_list max_mode - 3 \<and>
     (3::int) + 1 \<le> n_modes_of max_mode \<and>
     enumerate_modes 3 [1, 1/2, 1/3] = Inr modes \<and>
     int (length modes) = n_modes_of max_mode \<and>
     hd modes = replicate 3 0 \<and>
     3 \<le> length (tl modes)"
  using enough_candidates[of 3 "[1, 1/2, 1/3]"] by auto

section \<open>Shape and order of the mode table\<close>


lemma argsort_positions:
  assumes "is_argsort keys ii" and "0 < length keys" and "ii ! 0 = 0"
    and "i \<in> set (drop 1 ii)"
  shows "0 < i" and "i < length keys"
proof -
  have d: "distinct ii" and len: "length ii = length keys"
    using assms(1) by (simp_all add: is_argsort_def)
  have ii: "ii = ii ! 0 # drop 1 ii"
    using len assms(2) by (cases ii) simp_all
  then have "distinct (ii ! 0 # drop 1 ii)" using d by simp
  then have "ii ! 0 \<notin> set (drop 1 ii)" by simp
  then show "0 < i" using assms(3,4) by (cases i) auto
  have "i \<in> set ii" using assms(4) by (rule in_set_dropD)
  then show "i < length keys" using assms(1) by (simp add: is_argsort_def)
qed


lemma mode_table_selection:
  assumes "valid_bounds L R" and "eig_vals L R = Inr eig_val"
    and "is_argsort (map uminus eig_val) ii"
  shows "ii ! 0 = 0"
    and "mode_table L R ii = Inr (map (\<lambda>i. candidate_rows L R ! i) (take L (drop 1 ii)))"
    and "length (take L (drop 1 ii)) = L"
    and "\<forall>i \<in> set (take L (drop 1 ii)).
           \<exists>d m. d < L \<and> 1 \<le> m \<and> candidate_rows L R ! i = single_mode L d m"
proof -
  let ?C = "candidate_rows L R"
  let ?keys = "map uminus eig_val"
  let ?sel = "take L (drop 1 ii)"
  note e = eig_zero_first[OF assms(1,2)]
  have lenC: "L + 1 \<le> length ?C"
    using length_candidate_rows[OF assms(1)] sum_max_mode_ge[OF assms(1)] by simp
  have pos: "0 < length eig_val" using e(1) lenC by linarith
  have lk: "length ?keys = length ?C" using e(1) by simp
  have len_ii: "length ii = length ?C"
    using assms(3) lk by (simp add: is_argsort_def)
  have k0: "?keys ! 0 = 0" using pos e(2) by (simp add: nth_map)
  have kpos: "\<forall>j < length ?keys. 0 < j \<longrightarrow> ?keys ! 0 < ?keys ! j"
    using e(3) k0 by simp
  show first: "ii ! 0 = 0"
    using assms(3) _ kpos by (rule argsort_first) (use pos in simp)
  have sel: "select_modes L ?C ii = Inr (map (\<lambda>i. ?C ! i) ?sel)"
    using assms(3) lk by (intro argsort_select[of ?keys]) simp_all
  have nz: "0 \<notin> set R" using assms(1) by (auto simp: valid_bounds_def)
  show "mode_table L R ii = Inr (map (\<lambda>i. ?C ! i) ?sel)"
    using sel nz by (simp add: mode_table_def enumerate_modes_valid[OF assms(1)] omega0_of_def)
  show "length ?sel = L"
    using len_ii lenC by simp
  show "\<forall>i \<in> set ?sel. \<exists>d m. d < L \<and> 1 \<le> m \<and> ?C ! i = single_mode L d m"
  proof
    fix i assume "i \<in> set ?sel"
    then have "i \<in> set (drop 1 ii)" by (rule in_set_takeD)
    then have "0 < i" "i < length ?C"
      using argsort_positions[OF assms(3) _ first, of i] pos lk by simp_all
    then show "\<exists>d m. d < L \<and> 1 \<le> m \<and> ?C ! i = single_mode L d m"
      using candidate_rows_nth_pos[of i L R] by blast
  qed
qed

lemma eig_vals_example:
  "eig_vals 2 [2, 1] = Inr [0, - ((pi / 2) ^ 2), - (pi ^ 2), - (pi ^ 2)]"
  by (simp add: eig_vals_def enumerate_modes_def max_mode_of_def amax_def n_modes_of_def
      assign_col_def slice_index_def arange_def omega0_of_def omegas_of_def eig_val_of_def
      upto.simps upt_conv_Cons eval_nat_numeral)

lemma argsort_example:
  "is_argsort (map uminus [0, - ((pi / 2) ^ 2), - (pi ^ 2), - (pi ^ 2)]) [0, 1, 3, 2]"
  by (simp add: is_argsort_def power2_eq_square)



section \<open>The encoding loop\<close>

lemma map2_map2_left:
  "map2 f (map2 g us ds) ds = map2 (\<lambda>u d. f (g u d) d) us ds"
  by (induction us ds rule: list_induct2') simp_all

lemma map2_fst: "length us = length ds \<Longrightarrow> map2 (\<lambda>u d. u) us ds = us"
  by (induction us ds rule: list_induct2) simp_all

lemma code_loop_rows:
  assumes "\<forall>i \<in> set is. i < length omegas" and "length U = length data"
  shows "code_loop data omegas is U =
           Inr (map2 (\<lambda>urow drow. fold (\<lambda>i u. u[i := bit_value omegas drow i]) is urow) U data)"
  using assms
proof (induction "is" arbitrary: U)
  case Nil
  then show ?case by (simp add: map2_fst)
next
  case (Cons i "is")
  let ?U' = "map2 (\<lambda>urow drow. urow[i := bit_value omegas drow i]) U data"
  have "map2 (\<lambda>urow y. urow[i := y]) U
          (map prod_list (map (\<lambda>row. map (\<lambda>x. sin (x + pi / 2)) (map2 (*) row (omegas ! i))) data))
        = ?U'"
    by (simp add: bit_value_def zip_map2 comp_def case_prod_unfold)
  moreover have "code_loop data omegas is ?U' =
      Inr (map2 (\<lambda>urow drow. fold (\<lambda>i u. u[i := bit_value omegas drow i]) is urow) ?U' data)"
    using Cons.prems by (intro Cons.IH) simp_all
  ultimately show ?case
    using Cons.prems by (simp add: Let_def map2_map2_left)
qed

lemma fold_fill:
  "n \<le> length u \<Longrightarrow> fold (\<lambda>i u. u[i := f i]) [0..<n] u = map f [0..<n] @ drop n u"
proof (induction n)
  case 0
  then show ?case by simp
next
  case (Suc n)
  then have "(map f [0..<n] @ drop n u)[n := f n] = map f [0..<n] @ (drop n u)[0 := f n]"
    by (simp add: list_update_append)
  moreover have "(drop n u)[0 := f n] = f n # drop (Suc n) u"
    using Suc.prems Cons_nth_drop_Suc[of n u, symmetric] by simp
  ultimately show ?case using Suc by simp
qed

lemma bit_value_prod:
  assumes "length v = L" and "length mn = L" and "length R = L" and "length mrow = L"
  shows "prod_list (map (\<lambda>x. sin (x + pi / 2))
           (map2 (*) (map2 (-) v mn) (map2 (*) mrow (map (\<lambda>r. pi / r) R))))
         = (\<Prod>j<L. sin ((v ! j - mn ! j) * mrow ! j * (pi / R ! j) + pi / 2))"
proof -
  let ?zs = "map (\<lambda>x. sin (x + pi / 2))
           (map2 (*) (map2 (-) v mn) (map2 (*) mrow (map (\<lambda>r. pi / r) R)))"
  have "prod_list ?zs = (\<Prod>j = 0..<length ?zs. ?zs ! j)"
    by (rule prod.list_conv_set_nth)
  also have "\<dots> = (\<Prod>j<L. sin ((v ! j - mn ! j) * mrow ! j * (pi / R ! j) + pi / 2))"
    using assms by (intro prod.cong) (auto simp: atLeast0LessThan mult.assoc)
  finally show ?thesis .
qed


lemma generate_code_rows:
  assumes "L \<le> length modes" and "0 \<notin> set R"
  shows "generate_code L mn R modes X = Inr (map (code_row L mn R modes) X)"
proof -
  let ?omegas = "omegas_of modes (map (\<lambda>r. pi / r) R)"
  let ?data = "map (\<lambda>row. map2 (-) row mn) X"
  let ?U = "replicate (length ?data) (replicate L (0::real))"
  have "\<forall>i \<in> set [0..<L]. i < length ?omegas"
    using assms by (simp add: omegas_of_def)
  then have "code_loop ?data ?omegas [0..<L] ?U =
      Inr (map2 (\<lambda>urow drow. fold (\<lambda>i u. u[i := bit_value ?omegas drow i]) [0..<L] urow) ?U ?data)"
    by (rule code_loop_rows) simp
  also have "map2 (\<lambda>urow drow. fold (\<lambda>i u. u[i := bit_value ?omegas drow i]) [0..<L] urow) ?U ?data
      = map (\<lambda>drow. map (bit_value ?omegas drow) [0..<L]) ?data"
    by (intro nth_equalityI) (simp_all add: fold_fill)
  finally show ?thesis
    using assms(2) by (simp add: generate_code_def omega0_of_def code_row_def comp_def)
qed

lemma code_row_bits:
  assumes "L \<le> length modes" and "length mn = L" and "length R = L"
    and "\<forall>k<L. length (modes ! k) = L" and "length v = L"
  shows "code_row L mn R modes v =
           map (\<lambda>k. sgn (\<Prod>j<L. sin ((v ! j - mn ! j) * modes ! k ! j * (pi / R ! j) + pi / 2)))
             [0..<L]"
proof -
  have "\<And>k. k < L \<Longrightarrow>
          bit_value (omegas_of modes (map (\<lambda>r. pi / r) R)) (map2 (-) v mn) k
          = (\<Prod>j<L. sin ((v ! j - mn ! j) * modes ! k ! j * (pi / R ! j) + pi / 2))"
  proof -
    fix k assume k: "k < L"
    then have "omegas_of modes (map (\<lambda>r. pi / r) R) ! k
               = map2 (*) (modes ! k) (map (\<lambda>r. pi / r) R)"
      using assms(1) by (simp add: omegas_of_def)
    then show "bit_value (omegas_of modes (map (\<lambda>r. pi / r) R)) (map2 (-) v mn) k
          = (\<Prod>j<L. sin ((v ! j - mn ! j) * modes ! k ! j * (pi / R ! j) + pi / 2))"
      using bit_value_prod[of v L mn R "modes ! k"] assms k by (simp add: bit_value_def)
  qed
  then show ?thesis by (simp add: code_row_def)
qed


section \<open>The claims about the encoding\<close>



text \<open>
  Claim C8. The encoding is row-independent: a function \<open>f\<close> of one row (and of the
  bounds and the mode table) gives row \<open>i\<close> of the output from row \<open>i\<close> of the input
  alone, whatever the rest of the batch; and encoding the rows one by one and
  concatenating the codes gives the code of the whole batch.
\<close>

theorem generate_code_row_independent:
  assumes "L \<le> length modes" and "0 \<notin> set R"
  shows "(\<exists>f. \<forall>X. generate_code L mn R modes X = Inr (map f X)) \<and>
         (\<forall>X. \<exists>codes. length codes = length X \<and>
            (\<forall>i<length X. generate_code L mn R modes [X ! i] = Inr (codes ! i)) \<and>
            generate_code L mn R modes X = Inr (concat codes))"
proof
  show "\<exists>f. \<forall>X. generate_code L mn R modes X = Inr (map f X)"
    using generate_code_rows[OF assms] by blast
  show "\<forall>X. \<exists>codes. length codes = length X \<and>
            (\<forall>i<length X. generate_code L mn R modes [X ! i] = Inr (codes ! i)) \<and>
            generate_code L mn R modes X = Inr (concat codes)"
  proof
    fix X
    let ?codes = "map (\<lambda>v. [code_row L mn R modes v]) X"
    have "concat ?codes = map (code_row L mn R modes) X"
      by (induction X) simp_all
    then have "length ?codes = length X \<and>
            (\<forall>i<length X. generate_code L mn R modes [X ! i] = Inr (?codes ! i)) \<and>
            generate_code L mn R modes X = Inr (concat ?codes)"
      using generate_code_rows[OF assms] by simp
    then show "\<exists>codes. length codes = length X \<and>
            (\<forall>i<length X. generate_code L mn R modes [X ! i] = Inr (codes ! i)) \<and>
            generate_code L mn R modes X = Inr (concat codes)"
      by blast
  qed
qed

theorem generate_code_row_independent_witness:
  "\<exists>codes. length codes = 2 \<and>
     generate_code 1 [0] [1] [[1]] [[0]] = Inr (codes ! 0) \<and>
     generate_code 1 [0] [1] [[1]] [[1]] = Inr (codes ! 1) \<and>
     generate_code 1 [0] [1] [[1]] [[0], [1]] = Inr (concat codes)"
proof -
  have h: "(1::nat) \<le> length [[1::real]]" and r: "0 \<notin> set [1::real]" by simp_all
  have "\<forall>X. \<exists>codes. length codes = length X \<and>
            (\<forall>i<length X. generate_code 1 [0] [1] [[1]] [X ! i] = Inr (codes ! i)) \<and>
            generate_code 1 [0] [1] [[1]] X = Inr (concat codes)"
    using generate_code_row_independent[OF h r, of "[0]"] by (rule conjunct2)
  then obtain codes where c: "length codes = length [[0], [1::real]]"
    "\<forall>i<length [[0], [1::real]].
       generate_code 1 [0] [1] [[1]] [[[0], [1]] ! i] = Inr (codes ! i)"
    "generate_code 1 [0] [1] [[1]] [[0], [1]] = Inr (concat codes)"
    by blast
  have "(0::nat) < length [[0], [1::real]]" and "(1::nat) < length [[0], [1::real]]"
    by simp_all
  with c(2) have "generate_code 1 [0] [1] [[1]] [[[0], [1]] ! 0] = Inr (codes ! 0)"
    and "generate_code 1 [0] [1] [[1]] [[[0], [1]] ! 1] = Inr (codes ! 1)"
    by blast+
  with c(1,3) have "length codes = 2 \<and>
     generate_code 1 [0] [1] [[1]] [[0]] = Inr (codes ! 0) \<and>
     generate_code 1 [0] [1] [[1]] [[1]] = Inr (codes ! 1) \<and>
     generate_code 1 [0] [1] [[1]] [[0], [1]] = Inr (concat codes)"
    by simp
  then show ?thesis by (rule exI)
qed

text \<open>
  Claim C7. The encoding is deterministic: two calls of \<^verbatim>\<open>generate_code\<close> on identical
  projected matrices, bounds and mode tables return identical outputs. The source
  reads nothing but its arguments, and the loop writes every column of the buffer
  \<open>U\<close>, so the call is a function of those arguments.
\<close>

theorem generate_code_deterministic:
  assumes "X = X'" and "mn = mn'" and "R = R'" and "modes = modes'"
  shows "generate_code L mn R modes X = generate_code L mn' R' modes' X'"
  using assms by simp

theorem generate_code_deterministic_witness:
  "generate_code 1 [0] [1] [[1]] [[1 / 2]] = generate_code 1 [0] [1] [[1]] [[1 / 2]]"
  by (rule generate_code_deterministic) simp_all

section \<open>Single-axis rows of the mode table\<close>

lemma single_sinusoid:
  assumes "d < L"
  shows "(\<Prod>j<L. sin ((v ! j - mn ! j) * single_mode L d m ! j * (pi / R ! j) + pi / 2))
         = sin ((v ! d - mn ! d) * real_of_int m * (pi / R ! d) + pi / 2)"
proof -
  have "(\<Prod>j<L. sin ((v ! j - mn ! j) * single_mode L d m ! j * (pi / R ! j) + pi / 2))
        = (\<Prod>j<L. if j = d then sin ((v ! d - mn ! d) * real_of_int m * (pi / R ! d) + pi / 2)
                   else 1)"
    by (rule prod.cong) (simp_all add: single_mode_nth)
  also have "\<dots> = sin ((v ! d - mn ! d) * real_of_int m * (pi / R ! d) + pi / 2)"
    using assms by simp
  finally show ?thesis .
qed

text \<open>
  Claim C10. For a code length \<open>L \<ge> 1\<close> and \<open>L\<close> strictly positive ranges, every row
  \<open>k\<close> of the mode table has one entry that is at least \<open>1\<close>, at a dimension \<open>dims[k]\<close>,
  and zeros elsewhere; so bit \<open>k\<close> of the code of a row \<open>v\<close> is the sign of one sinusoid
  of the one coordinate \<open>v[dims[k]]\<close>.
\<close>

theorem mode_table_single_axis:
  assumes "0 < L" and "length R = L" and "\<forall>r \<in> set R. 0 < r"
    and "eig_vals L R = Inr eig_val" and "is_argsort (map uminus eig_val) ii"
  shows "\<exists>T dims.
           mode_table L R ii = Inr T \<and> length T = L \<and> length dims = L \<and>
           (\<forall>k<L. dims ! k < L \<and> length (T ! k) = L \<and> 1 \<le> T ! k ! (dims ! k) \<and>
                  (\<forall>j<L. j \<noteq> dims ! k \<longrightarrow> T ! k ! j = 0)) \<and>
           (\<forall>mn X. length mn = L \<and> (\<forall>v \<in> set X. length v = L) \<longrightarrow>
              generate_code L mn R T X =
                Inr (map (\<lambda>v. map (\<lambda>k. sgn (sin ((v ! (dims ! k) - mn ! (dims ! k))
                                          * T ! k ! (dims ! k) * (pi / R ! (dims ! k)) + pi / 2)))
                               [0..<L]) X))"
proof -
  let ?C = "candidate_rows L R"
  let ?sel = "take L (drop 1 ii)"
  let ?T = "map (\<lambda>i. ?C ! i) ?sel"
  have v: "valid_bounds L R" using assms(1-3) by (rule valid_boundsI)
  note s = mode_table_selection[OF v assms(4,5)]
  have nz: "0 \<notin> set R" using assms(3) by auto
  have tab: "mode_table L R ii = Inr ?T" by (rule s(2))
  have lenT: "length ?T = L" using s(3) by simp
  have row: "\<forall>k<L. \<exists>d m. d < L \<and> 1 \<le> m \<and> ?T ! k = single_mode L d m"
  proof (intro allI impI)
    fix k assume k: "k < L"
    then have "k < length ?sel" using lenT by simp
    then have "?sel ! k \<in> set ?sel" by (rule nth_mem)
    then obtain d m where "d < L" "1 \<le> m" "?C ! (?sel ! k) = single_mode L d m"
      using s(4) by blast
    then show "\<exists>d m. d < L \<and> 1 \<le> m \<and> ?T ! k = single_mode L d m"
      using k lenT by auto
  qed
  then obtain fd fm where f: "\<forall>k<L. fd k < L \<and> 1 \<le> fm k \<and> ?T ! k = single_mode L (fd k) (fm k)"
    by metis
  let ?dims = "map fd [0..<L]"
  have shape: "\<forall>k<L. ?dims ! k < L \<and> length (?T ! k) = L \<and> 1 \<le> ?T ! k ! (?dims ! k) \<and>
                  (\<forall>j<L. j \<noteq> ?dims ! k \<longrightarrow> ?T ! k ! j = 0)"
    using f by (simp add: single_mode_nth) (simp add: single_mode_def)
  have code: "\<forall>mn X. length mn = L \<and> (\<forall>v \<in> set X. length v = L) \<longrightarrow>
              generate_code L mn R ?T X =
                Inr (map (\<lambda>v. map (\<lambda>k. sgn (sin ((v ! (?dims ! k) - mn ! (?dims ! k))
                                          * ?T ! k ! (?dims ! k) * (pi / R ! (?dims ! k)) + pi / 2)))
                               [0..<L]) X)"
  proof (intro allI impI)
    fix mn :: "real list" and X :: "real list list"
    assume a: "length mn = L \<and> (\<forall>v \<in> set X. length v = L)"
    have "\<And>x. x \<in> set X \<Longrightarrow> code_row L mn R ?T x =
            map (\<lambda>k. sgn (sin ((x ! (?dims ! k) - mn ! (?dims ! k))
                                          * ?T ! k ! (?dims ! k) * (pi / R ! (?dims ! k)) + pi / 2)))
                               [0..<L]"
    proof -
      fix x assume "x \<in> set X"
      then have lx: "length x = L" using a by simp
      have "code_row L mn R ?T x =
           map (\<lambda>k. sgn (\<Prod>j<L. sin ((x ! j - mn ! j) * ?T ! k ! j * (pi / R ! j) + pi / 2)))
             [0..<L]"
        using lenT a assms(2) shape lx by (intro code_row_bits) simp_all
      also have "\<dots> = map (\<lambda>k. sgn (sin ((x ! (?dims ! k) - mn ! (?dims ! k))
                                          * ?T ! k ! (?dims ! k) * (pi / R ! (?dims ! k)) + pi / 2)))
                               [0..<L]"
      proof (rule map_cong[OF refl])
        fix k assume "k \<in> set [0..<L]"
        then have k: "k < L" by simp
        then have tk: "?T ! k = single_mode L (fd k) (fm k)" and d: "fd k < L"
          using f by simp_all
        show "sgn (\<Prod>j<L. sin ((x ! j - mn ! j) * ?T ! k ! j * (pi / R ! j) + pi / 2))
              = sgn (sin ((x ! (?dims ! k) - mn ! (?dims ! k))
                           * ?T ! k ! (?dims ! k) * (pi / R ! (?dims ! k)) + pi / 2))"
        proof -
          have dk: "?dims ! k = fd k" using k by simp
          have e2: "single_mode L (fd k) (fm k) ! fd k = real_of_int (fm k)"
            using d by (simp add: single_mode_nth)
          show ?thesis
            unfolding tk dk single_sinusoid[OF d] e2 by (rule refl)
        qed
      qed
      finally show "code_row L mn R ?T x =
            map (\<lambda>k. sgn (sin ((x ! (?dims ! k) - mn ! (?dims ! k))
                                          * ?T ! k ! (?dims ! k) * (pi / R ! (?dims ! k)) + pi / 2)))
                               [0..<L]" .
    qed
    then have "map (code_row L mn R ?T) X =
         map (\<lambda>v. map (\<lambda>k. sgn (sin ((v ! (?dims ! k) - mn ! (?dims ! k))
                                          * ?T ! k ! (?dims ! k) * (pi / R ! (?dims ! k)) + pi / 2)))
                               [0..<L]) X"
      by (intro map_cong[OF refl])
    moreover have "generate_code L mn R ?T X = Inr (map (code_row L mn R ?T) X)"
      using lenT nz by (intro generate_code_rows) simp_all
    ultimately show "generate_code L mn R ?T X =
                Inr (map (\<lambda>v. map (\<lambda>k. sgn (sin ((v ! (?dims ! k) - mn ! (?dims ! k))
                                          * ?T ! k ! (?dims ! k) * (pi / R ! (?dims ! k)) + pi / 2)))
                               [0..<L]) X)"
      by (simp only:)
  qed
  have "length ?dims = L" by simp
  with tab lenT shape code show ?thesis by blast
qed

theorem mode_table_single_axis_witness:
  "\<exists>T dims.
     mode_table 2 [2, 1] [0, 1, 3, 2] = Inr T \<and> length T = 2 \<and> length dims = 2 \<and>
     (\<forall>k<2. dims ! k < 2 \<and> length (T ! k) = 2 \<and> 1 \<le> T ! k ! (dims ! k))"
  using mode_table_single_axis[of 2 "[2, 1]", OF _ _ _ eig_vals_example argsort_example]
  by auto

section \<open>Too few candidates\<close>








section \<open>The padding of the bounds\<close>

lemma floor_log2:
  assumes "2 powr of_int k \<le> x" and "x < 2 powr of_int (k + 1)"
  shows "\<lfloor>log 2 x\<rfloor> = k"
proof -
  have "0 < x" using assms(1) powr_gt_zero[of 2 "of_int k"] by linarith
  then show ?thesis using assms by (simp add: floor_log_eq_powr_iff)
qed

lemma fl64_binade:
  assumes "2 powr of_int k \<le> \<bar>x\<bar>" and "\<bar>x\<bar> < 2 powr of_int (k + 1)"
  shows "fl64 x = of_int (round_even (x * 2 powr of_int (52 - k))) * 2 powr of_int (k - 52)"
proof -
  have "x \<noteq> 0" using assms(1) powr_gt_zero[of 2 "of_int k"] by auto
  then show ?thesis using floor_log2[OF assms] by (simp add: fl64_def)
qed

lemma fl64_minus5: "fl64 (- 5 - eps) = - 5"
proof -
  have "fl64 (- 5 - eps) =
          of_int (round_even ((- 5 - eps) * 2 powr of_int (52 - 2))) * 2 powr of_int (2 - 52)"
    by (rule fl64_binade) (simp_all add: eps_def)
  also have "\<dots> = - 5"
    by (simp add: eps_def round_even_def powr_minus field_simps)
  finally show ?thesis .
qed

lemma fl64_plus5: "fl64 (5 + eps) = 5"
proof -
  have "fl64 (5 + eps) =
          of_int (round_even ((5 + eps) * 2 powr of_int (52 - 2))) * 2 powr of_int (2 - 52)"
    by (rule fl64_binade) (simp_all add: eps_def)
  also have "\<dots> = 5"
    by (simp add: eps_def round_even_def powr_minus field_simps)
  finally show ?thesis .
qed

lemma fl64_ten: "fl64 10 = 10"
proof -
  have "fl64 10 = of_int (round_even (10 * 2 powr of_int (52 - 3))) * 2 powr of_int (3 - 52)"
    by (rule fl64_binade) simp_all
  also have "\<dots> = 10"
    by (simp add: round_even_def powr_minus field_simps)
  finally show ?thesis .
qed

text \<open>
  In exact arithmetic the padding does what it is meant to do: every value of a
  column lies strictly between the padded minimum and maximum, and the range is
  positive, also for a constant column.
\<close>

lemma padding_exact:
  assumes "x \<in> set c"
  shows "Min (set c) - eps < x" and "x < Max (set c) + eps"
    and "0 < (Max (set c) + eps) - (Min (set c) - eps)"
proof -
  have e: "0 < eps" by (simp add: eps_def)
  have "Min (set c) \<le> x" and "x \<le> Max (set c)" using assms by simp_all
  then show "Min (set c) - eps < x" and "x < Max (set c) + eps"
    and "0 < (Max (set c) + eps) - (Min (set c) - eps)"
    using e by linarith+
qed

text \<open>
  Claim C9 says that the padding by \<open>eps\<close> puts every projected training value
  strictly inside \<open>(min, max)\<close>. In float64 it does not: \<open>eps = 2^-52\<close> is less than half
  the gap between neighbouring float64 values of magnitude 4 or more, so there
  \<^verbatim>\<open>x - eps\<close> and \<^verbatim>\<open>x + eps\<close> round back to \<open>x\<close>. For the projected training matrix with
  the one column \<open>-5, 5\<close> the bounds are \<open>mn = -5\<close> and \<open>mx = 5\<close>: both training values
  lie on the boundary.
\<close>

theorem fit_bounds_absorbs_eps:
  "fit_bounds 1 [[- 5], [5]] = Inr ([- 5], [5], [10])"
  by (simp add: fit_bounds_def columns_def fl64_minus5 fl64_plus5 fl64_ten)

end
